theory Spec2Isabelle
  imports Main
begin

section \<open>The keyboard binding matcher of \<open>src/useKeysBindings.ts\<close>\<close>

text \<open>
  The hook \<open>useKeys\<close> registers a list of commands and listens to three window events:
  \<open>keydown\<close>, \<open>keyup\<close> and \<open>blur\<close>. Its only mutable state is the ref \<open>pressedKeys\<close>, a
  \<open>LowercaseSet\<close>. The model passes that set explicitly, and returns, for every handler,
  the new set together with the list of observable effects the handler performed, in the
  order the code performs them: calls of \<open>e.preventDefault()\<close> and calls of a command's
  callback.

  Callbacks are opaque values of a type \<open>'cb\<close>: the matcher only calls them. They have no
  access to \<open>pressedKeys\<close> (a ref private to the hook), and they are taken to return
  normally.

  The model covers one registration, from the call of \<open>useKeys\<close> on: subscribing the
  handlers to the window and the cleanup of the effect are the host's lifecycle and are not
  modelled.
\<close>

subsection \<open>Key identifiers and \<open>toLowerCase\<close>\<close>

text \<open>
  Key identifiers are strings; a character of the model is a code point below 256 (the
  Latin-1 range, which holds the named keys such as \<open>ArrowUp\<close> or \<open>Control\<close> and the printable
  characters of Western keyboards). On these code points \<open>String.prototype.toLowerCase\<close>
  maps the capitals, which are \<open>A\<close> .. \<open>Z\<close> (65 .. 90), \<open>A-grave\<close> .. \<open>O-diaeresis\<close> (192 .. 214) and
  \<open>O-stroke\<close> .. \<open>Thorn\<close> (216 .. 222), to the letter 32 places further, and leaves every other
  character as it is (215 is the multiplication sign). Code points from 256 on are outside
  the type.
\<close>

definition isCapital :: "nat \<Rightarrow> bool" where
  "isCapital n \<longleftrightarrow> (65 \<le> n \<and> n \<le> 90) \<or> (192 \<le> n \<and> n \<le> 214) \<or> (216 \<le> n \<and> n \<le> 222)"

definition lowerChar :: "char \<Rightarrow> char" where
  "lowerChar c =
     (let n = (of_char c :: nat) in if isCapital n then char_of (n + 32) else c)"

definition toLowerCase :: "string \<Rightarrow> string" where
  "toLowerCase s = map lowerChar s"

text \<open>
  Two key identifiers are the same key when their lower-cased forms are equal.
\<close>

definition sameKey :: "string \<Rightarrow> string \<Rightarrow> bool" where
  "sameKey a b \<longleftrightarrow> toLowerCase a = toLowerCase b"

text \<open>
  Stated on character codes, without \<open>toLowerCase\<close>: two characters are the same letter when
  they are equal or one is the capital of the other; two identifiers differ at most in
  letter-case when they have the same length and are the same letter at every position.
\<close>

definition capitalOf :: "char \<Rightarrow> char \<Rightarrow> bool" where
  "capitalOf c d \<longleftrightarrow> isCapital (of_char c) \<and> (of_char d :: nat) = of_char c + 32"

definition sameLetter :: "char \<Rightarrow> char \<Rightarrow> bool" where
  "sameLetter c d \<longleftrightarrow> c = d \<or> capitalOf c d \<or> capitalOf d c"

definition caseVariant :: "string \<Rightarrow> string \<Rightarrow> bool" where
  "caseVariant a b \<longleftrightarrow> list_all2 sameLetter a b"

subsection \<open>The class \<open>LowercaseSet\<close>\<close>

text \<open>
  A JavaScript \<open>Set\<close> keeps its members in insertion order and without duplicates; it is a
  list here. \<open>LowercaseSet\<close> overrides \<open>add\<close>, \<open>delete\<close> and \<open>has\<close> to lower-case their
  argument first; \<open>clear\<close> is inherited. The constructor \<open>new LowercaseSet(iterable)\<close> calls
  \<open>add\<close> on every element of the iterable, in order.
\<close>

type_synonym LowercaseSet = "string list"

definition LowercaseSet_has :: "LowercaseSet \<Rightarrow> string \<Rightarrow> bool" where
  "LowercaseSet_has s v \<longleftrightarrow> toLowerCase v \<in> set s"

definition LowercaseSet_add :: "LowercaseSet \<Rightarrow> string \<Rightarrow> LowercaseSet" where
  "LowercaseSet_add s v = (if toLowerCase v \<in> set s then s else s @ [toLowerCase v])"

definition LowercaseSet_delete :: "LowercaseSet \<Rightarrow> string \<Rightarrow> LowercaseSet" where
  "LowercaseSet_delete s v = removeAll (toLowerCase v) s"

definition LowercaseSet_clear :: "LowercaseSet \<Rightarrow> LowercaseSet" where
  "LowercaseSet_clear s = []"

definition LowercaseSet_new :: "string list \<Rightarrow> LowercaseSet" where
  "LowercaseSet_new vs = foldl LowercaseSet_add [] vs"

subsection \<open>Events, commands and effects\<close>

text \<open>
  A \<open>KeyboardEvent\<close> carries its key identifier and the four raw modifier flags of the
  platform. A command is the interface \<open>useKeysCommand\<close>; its three optional fields are
  options, \<open>None\<close> standing for \<open>undefined\<close>. The \<open>modifiers\<close> object is the list of its
  entries, as \<open>Object.entries\<close> enumerates them; a value of the partial record may itself be
  \<open>undefined\<close>.
\<close>

record KeyboardEvent =
  key :: string
  ctrlKey :: bool
  shiftKey :: bool
  altKey :: bool
  metaKey :: bool

record 'cb useKeysCommand =
  keys :: "string list"
  callback :: 'cb
  triggerOnAnyKey :: "bool option"
  modifiers :: "(string \<times> bool option) list option"
  preventDefault :: "bool option"

text \<open>
  A JavaScript object may carry properties beyond those of the interface. The README
  documents one, \<open>enableKeyRepeatOnHold\<close>; a command carrying it is an extension of the
  record. Every function below accepts any extension and reads the five interface fields
  only, as the code does.
\<close>

record 'cb repeatCommand = "'cb useKeysCommand" +
  enableKeyRepeatOnHold :: "bool option"

datatype 'cb effect =
    PreventDefault KeyboardEvent
  | Invoke nat 'cb KeyboardEvent

datatype error = Error string

subsection \<open>\<open>checkModifiers\<close> and \<open>checkKeys\<close>\<close>

definition checkModifiers ::
  "LowercaseSet \<Rightarrow> (string \<times> bool option) list option \<Rightarrow> bool" where
  "checkModifiers pressedKeys mods =
     (case mods of
        None \<Rightarrow> True
      | Some entries \<Rightarrow>
          if length entries = 0 then True
          else list_all (\<lambda>(modifier, required).
                 required = Some (LowercaseSet_has pressedKeys modifier)) entries)"

definition checkKeys :: "LowercaseSet \<Rightarrow> LowercaseSet \<Rightarrow> bool option \<Rightarrow> bool" where
  "checkKeys pressedKeys keySet anyKey =
     (if anyKey = Some True then list_ex (\<lambda>k. LowercaseSet_has pressedKeys k) keySet
      else list_all (\<lambda>k. LowercaseSet_has pressedKeys k) keySet)"

subsection \<open>Registration\<close>

definition keySets :: "('cb, 'z) useKeysCommand_scheme list \<Rightarrow> LowercaseSet list" where
  "keySets commands = map (\<lambda>command. LowercaseSet_new (keys command)) commands"

definition commandCallbacks :: "('cb, 'z) useKeysCommand_scheme list \<Rightarrow> 'cb list" where
  "commandCallbacks commands = map (\<lambda>command. callback command) commands"

text \<open>
  \<open>useKeys\<close> throws when a command has an empty \<open>keys\<close> array; otherwise it creates the ref
  \<open>pressedKeys\<close> holding an empty \<open>LowercaseSet\<close>, which is what the model returns.
\<close>

definition useKeys :: "('cb, 'z) useKeysCommand_scheme list \<Rightarrow> error + LowercaseSet" where
  "useKeys commands =
     (if list_ex (\<lambda>cmd. length (keys cmd) = 0) commands
      then Inl (Error ''Empty keys array is not allowed'')
      else Inr (LowercaseSet_new []))"

subsection \<open>The three handlers\<close>

text \<open>The body of the \<open>for\<close> loop of \<open>handleKeyDown\<close> at index \<open>i\<close>.\<close>

definition commandStep ::
  "('cb, 'z) useKeysCommand_scheme list \<Rightarrow> LowercaseSet \<Rightarrow> KeyboardEvent \<Rightarrow> nat \<Rightarrow> 'cb effect list"
  where
  "commandStep commands pressedKeys e i =
     (let command = commands ! i;
          keySet = keySets commands ! i
      in (if preventDefault command = Some True \<and> LowercaseSet_has keySet (key e)
          then [PreventDefault e] else [])
         @ (if \<not> checkModifiers pressedKeys (modifiers command) then []
            else if \<not> checkKeys pressedKeys keySet (triggerOnAnyKey command) then []
            else [Invoke i (commandCallbacks commands ! i) e]))"

definition handleKeyDown ::
  "('cb, 'z) useKeysCommand_scheme list \<Rightarrow> LowercaseSet \<Rightarrow> KeyboardEvent
     \<Rightarrow> LowercaseSet \<times> 'cb effect list" where
  "handleKeyDown commands pressedKeys e =
     (if LowercaseSet_has pressedKeys (key e) then (pressedKeys, [])
      else
        let pressedKeys' = LowercaseSet_add pressedKeys (key e)
        in (pressedKeys',
            concat (map (commandStep commands pressedKeys' e) [0..<length commands])))"

definition handleKeyUp ::
  "('cb, 'z) useKeysCommand_scheme list \<Rightarrow> LowercaseSet \<Rightarrow> KeyboardEvent
     \<Rightarrow> LowercaseSet \<times> 'cb effect list" where
  "handleKeyUp commands pressedKeys e = (LowercaseSet_delete pressedKeys (key e), [])"

definition handleBlur ::
  "('cb, 'z) useKeysCommand_scheme list \<Rightarrow> LowercaseSet \<Rightarrow> LowercaseSet \<times> 'cb effect list"
  where
  "handleBlur commands pressedKeys = (LowercaseSet_clear pressedKeys, [])"

text \<open>
  The window delivers a sequence of notifications; \<open>run\<close> feeds them to the handlers one
  after the other and collects the effects.
\<close>

datatype notification = KeyDown KeyboardEvent | KeyUp KeyboardEvent | Blur

fun dispatch ::
  "('cb, 'z) useKeysCommand_scheme list \<Rightarrow> LowercaseSet \<Rightarrow> notification
     \<Rightarrow> LowercaseSet \<times> 'cb effect list" where
  "dispatch commands pressedKeys (KeyDown e) = handleKeyDown commands pressedKeys e"
| "dispatch commands pressedKeys (KeyUp e) = handleKeyUp commands pressedKeys e"
| "dispatch commands pressedKeys Blur = handleBlur commands pressedKeys"

fun run ::
  "('cb, 'z) useKeysCommand_scheme list \<Rightarrow> LowercaseSet \<Rightarrow> notification list
     \<Rightarrow> LowercaseSet \<times> 'cb effect list" where
  "run commands pressedKeys [] = (pressedKeys, [])"
| "run commands pressedKeys (n # ns) =
     (let (pressedKeys', effs) = dispatch commands pressedKeys n;
          (pressedKeys'', effs') = run commands pressedKeys' ns
      in (pressedKeys'', effs @ effs'))"

subsection \<open>Concrete inputs\<close>

text \<open>An event that reports no raw modifier flag, and a command with the defaults.\<close>

definition keyEvent :: "string \<Rightarrow> KeyboardEvent" where
  "keyEvent k = \<lparr>key = k, ctrlKey = False, shiftKey = False, altKey = False, metaKey = False\<rparr>"

definition command :: "string list \<Rightarrow> nat \<Rightarrow> nat useKeysCommand" where
  "command ks cb =
     \<lparr>keys = ks, callback = cb, triggerOnAnyKey = None, modifiers = None, preventDefault = None\<rparr>"

text \<open>A combination of two keys, written with a capital, and a binding to either arrow key.\<close>

definition comboCommands :: "nat useKeysCommand list" where
  "comboCommands = [command [''a'', ''B''] 7]"

definition arrowCommands :: "nat useKeysCommand list" where
  "arrowCommands = [(command [''ArrowRight'', ''ArrowLeft''] 7)\<lparr>triggerOnAnyKey := Some True\<rparr>]"

text \<open>A registration in which the second command has no key, and a single-key binding.\<close>

definition emptyKeysCommands :: "nat useKeysCommand list" where
  "emptyKeysCommands = [command [''a''] 1, command [] 2]"

definition singleKeyCommands :: "nat useKeysCommand list" where
  "singleKeyCommands = [command [''a''] 7]"

text \<open>
  The three examples of the README: saving with \<open>Control\<close> + \<open>s\<close>, continuous movement with
  \<open>enableKeyRepeatOnHold\<close>, and a binding that suppresses the default action of a key.
\<close>

definition saveCommands :: "nat useKeysCommand list" where
  "saveCommands =
     [(command [''s''] 7)\<lparr>modifiers := Some [(''Control'', Some True)], preventDefault := Some True\<rparr>]"

definition repeatCommands :: "nat repeatCommand list" where
  "repeatCommands =
     [\<lparr>keys = [''ArrowRight''], callback = 7, triggerOnAnyKey = None, modifiers = None,
       preventDefault = None, enableKeyRepeatOnHold = Some True\<rparr>]"

definition scrollCommands :: "nat useKeysCommand list" where
  "scrollCommands = [(command [''ArrowDown''] 7)\<lparr>preventDefault := Some True\<rparr>]"

subsection \<open>Observing a run\<close>

text \<open>
  \<open>withEvent e'\<close> is the effect with its event replaced by \<open>e'\<close>; \<open>keyDowns\<close> lists the
  normalized keys of the key-down notifications of a sequence.
\<close>

fun withEvent :: "KeyboardEvent \<Rightarrow> 'cb effect \<Rightarrow> 'cb effect" where
  "withEvent e' (PreventDefault e) = PreventDefault e'"
| "withEvent e' (Invoke i cb e) = Invoke i cb e'"

fun keyDowns :: "notification list \<Rightarrow> string list" where
  "keyDowns [] = []"
| "keyDowns (KeyDown e # ns) = toLowerCase (key e) # keyDowns ns"
| "keyDowns (KeyUp e # ns) = keyDowns ns"
| "keyDowns (Blur # ns) = keyDowns ns"

subsection \<open>Inputs that differ in letter-case only\<close>

text \<open>
  Two events, two modifiers maps, two commands, two notifications are the same up to
  letter-case when they agree in everything but their key identifiers, and these are the
  same key, that is, have equal lower-cased forms; two effects are, when they are the same
  kind of effect, of the same binding and callback, on events that are the same up to
  letter-case.
\<close>

definition sameEvent :: "KeyboardEvent \<Rightarrow> KeyboardEvent \<Rightarrow> bool" where
  "sameEvent e e' \<longleftrightarrow>
     sameKey (key e) (key e') \<and> ctrlKey e = ctrlKey e' \<and> shiftKey e = shiftKey e'
     \<and> altKey e = altKey e' \<and> metaKey e = metaKey e'"

fun sameEntry :: "string \<times> bool option \<Rightarrow> string \<times> bool option \<Rightarrow> bool" where
  "sameEntry (modifier, required) (modifier', required') \<longleftrightarrow>
     sameKey modifier modifier' \<and> required = required'"

fun sameModifiers ::
  "(string \<times> bool option) list option \<Rightarrow> (string \<times> bool option) list option \<Rightarrow> bool" where
  "sameModifiers None None \<longleftrightarrow> True"
| "sameModifiers (Some entries) (Some entries') \<longleftrightarrow> list_all2 sameEntry entries entries'"
| "sameModifiers _ _ \<longleftrightarrow> False"

definition sameCommand ::
  "('cb, 'z) useKeysCommand_scheme \<Rightarrow> ('cb, 'z) useKeysCommand_scheme \<Rightarrow> bool" where
  "sameCommand c c' \<longleftrightarrow>
     list_all2 sameKey (keys c) (keys c') \<and> callback c = callback c'
     \<and> triggerOnAnyKey c = triggerOnAnyKey c' \<and> sameModifiers (modifiers c) (modifiers c')
     \<and> preventDefault c = preventDefault c'"

fun sameNotification :: "notification \<Rightarrow> notification \<Rightarrow> bool" where
  "sameNotification (KeyDown e) (KeyDown e') \<longleftrightarrow> sameEvent e e'"
| "sameNotification (KeyUp e) (KeyUp e') \<longleftrightarrow> sameEvent e e'"
| "sameNotification Blur Blur \<longleftrightarrow> True"
| "sameNotification _ _ \<longleftrightarrow> False"

fun sameEffect :: "'cb effect \<Rightarrow> 'cb effect \<Rightarrow> bool" where
  "sameEffect (PreventDefault e) (PreventDefault e') \<longleftrightarrow> sameEvent e e'"
| "sameEffect (Invoke i cb e) (Invoke i' cb' e') \<longleftrightarrow> i = i' \<and> cb = cb' \<and> sameEvent e e'"
| "sameEffect _ _ \<longleftrightarrow> False"

text \<open>The save binding and a sequence of notifications, each written in two ways.\<close>

definition saveCommandsUpper :: "nat useKeysCommand list" where
  "saveCommandsUpper =
     [(command [''S''] 7)\<lparr>modifiers := Some [(''CONTROL'', Some True)], preventDefault := Some True\<rparr>]"

definition saveKeys :: "notification list" where
  "saveKeys = [KeyDown (keyEvent ''Control''), KeyDown (keyEvent ''s''), KeyUp (keyEvent ''s'')]"

definition saveKeysUpper :: "notification list" where
  "saveKeysUpper = [KeyDown (keyEvent ''control''), KeyDown (keyEvent ''S''), KeyUp (keyEvent ''S'')]"

text \<open>
  A key beyond ASCII: \<open>e-acute\<close> (code 233) and its capital (code 201), a binding to each,
  and the key pressed, repeated in the other case, released in the other case and
  pressed again.
\<close>

definition eAcute :: string where
  "eAcute = [CHR 0xE9]"

definition capitalEAcute :: string where
  "capitalEAcute = [CHR 0xC9]"

definition accentCommands :: "nat useKeysCommand list" where
  "accentCommands = [command [eAcute] 7]"

definition accentCommandsUpper :: "nat useKeysCommand list" where
  "accentCommandsUpper = [command [capitalEAcute] 7]"

definition accentKeys :: "notification list" where
  "accentKeys =
     [KeyDown (keyEvent eAcute), KeyDown (keyEvent capitalEAcute), KeyUp (keyEvent capitalEAcute),
      KeyDown (keyEvent eAcute)]"

definition accentKeysUpper :: "notification list" where
  "accentKeysUpper =
     [KeyDown (keyEvent capitalEAcute), KeyDown (keyEvent eAcute), KeyUp (keyEvent eAcute),
      KeyDown (keyEvent capitalEAcute)]"

section \<open>Properties\<close>

subsection \<open>Lower-casing and the set operations\<close>

lemma capital_bound: "isCapital n \<Longrightarrow> n + 32 < 256"
  by (auto simp: isCapital_def)

lemma of_char_lowered:
  assumes "isCapital (of_char c)"
  shows "(of_char (char_of (of_char c + 32 :: nat)) :: nat) = of_char c + 32"
proof -
  have "(of_char c + 32 :: nat) mod 256 = of_char c + 32"
    using capital_bound [OF assms] by (rule mod_less)
  then show ?thesis by (simp only: of_char_of)
qed


lemma lowered_not_capital: "isCapital n \<Longrightarrow> \<not> isCapital (n + 32)"
  by (auto simp: isCapital_def)

lemma lowerChar_capital:
  "isCapital (of_char c) \<Longrightarrow> (of_char (lowerChar c) :: nat) = of_char c + 32"
  by (simp only: lowerChar_def Let_def if_True of_char_lowered)

lemma lowerChar_other: "\<not> isCapital (of_char c) \<Longrightarrow> lowerChar c = c"
  by (simp only: lowerChar_def Let_def if_False)

lemma lowerChar_not_capital: "\<not> isCapital (of_char (lowerChar c))"
proof (cases "isCapital (of_char c)")
  case True
  then show ?thesis by (simp only: lowerChar_capital lowered_not_capital not_False_eq_True)
next
  case False
  then show ?thesis by (simp only: lowerChar_other not_False_eq_True)
qed

lemma lowerChar_idem: "lowerChar (lowerChar c) = lowerChar c"
  using lowerChar_not_capital [of c] by (rule lowerChar_other)

lemma toLowerCase_idem: "toLowerCase (toLowerCase s) = toLowerCase s"
  by (simp add: toLowerCase_def lowerChar_idem)

lemma capitalOf_lowerChar:
  assumes "capitalOf c d"
  shows "lowerChar c = d" and "lowerChar d = d"
proof -
  from assms have r: "isCapital (of_char c)"
    and d: "(of_char d :: nat) = of_char c + 32"
    by (simp_all only: capitalOf_def)
  from lowerChar_capital [OF r] d have "(of_char (lowerChar c) :: nat) = of_char d" by simp
  then show "lowerChar c = d" by (rule of_char_eqI)
  from lowered_not_capital [OF r] d have "\<not> isCapital (of_char d)" by simp
  then show "lowerChar d = d" by (rule lowerChar_other)
qed

lemma sameLetter_lowerChar: "sameLetter c d \<Longrightarrow> lowerChar c = lowerChar d"
  unfolding sameLetter_def
  using capitalOf_lowerChar by metis

lemma lowerChar_capitalOf: "isCapital (of_char c) \<Longrightarrow> capitalOf c (lowerChar c)"
  by (simp only: capitalOf_def lowerChar_capital simp_thms)

lemma lowerChar_sameLetter:
  assumes "lowerChar c = lowerChar d"
  shows "sameLetter c d"
proof (cases "isCapital (of_char c)")
  case c: True
  show ?thesis
  proof (cases "isCapital (of_char d)")
    case True
    have "(of_char c :: nat) + 32 = of_char (lowerChar c)"
      by (rule lowerChar_capital [OF c, symmetric])
    also have "\<dots> = of_char (lowerChar d)" by (simp only: assms)
    also have "\<dots> = of_char d + 32" by (rule lowerChar_capital [OF True])
    finally have "(of_char c :: nat) = of_char d" by (rule add_right_imp_eq)
    then have "c = d" by (rule of_char_eqI)
    then show ?thesis unfolding sameLetter_def by (rule disjI1)
  next
    case False
    have "lowerChar c = d"
      using assms by (simp only: lowerChar_other [OF False])
    with lowerChar_capitalOf [OF c] have "capitalOf c d" by (simp only:)
    then show ?thesis unfolding sameLetter_def by blast
  qed
next
  case c: False
  have l: "lowerChar d = c"
    using assms by (simp only: lowerChar_other [OF c])
  show ?thesis
  proof (cases "isCapital (of_char d)")
    case True
    with lowerChar_capitalOf [OF True] l have "capitalOf d c" by (simp only:)
    then show ?thesis unfolding sameLetter_def by blast
  next
    case False
    from l have "c = d" by (simp only: lowerChar_other [OF False])
    then show ?thesis unfolding sameLetter_def by (rule disjI1)
  qed
qed

lemma sameLetter_iff: "sameLetter c d \<longleftrightarrow> lowerChar c = lowerChar d"
  using sameLetter_lowerChar lowerChar_sameLetter by blast

lemma caseVariant_iff_sameKey: "caseVariant a b \<longleftrightarrow> sameKey a b"
  unfolding caseVariant_def sameKey_def toLowerCase_def
proof (induction a arbitrary: b)
  case Nil
  show ?case by auto
next
  case (Cons x xs)
  then show ?case by (cases b) (auto simp: sameLetter_iff)
qed

lemma sameKey_toLowerCase: "sameKey a b \<Longrightarrow> toLowerCase a = toLowerCase b"
  by (simp add: sameKey_def)

lemma set_LowercaseSet_add:
  "set (LowercaseSet_add s v) = insert (toLowerCase v) (set s)"
  by (auto simp: LowercaseSet_add_def)

lemma set_LowercaseSet_delete:
  "set (LowercaseSet_delete s v) = set s - {toLowerCase v}"
  by (simp add: LowercaseSet_delete_def)

lemma set_foldl_add:
  "set (foldl LowercaseSet_add acc vs) = set acc \<union> toLowerCase ` set vs"
  by (induction vs arbitrary: acc) (auto simp: set_LowercaseSet_add)

lemma set_LowercaseSet_new: "set (LowercaseSet_new vs) = toLowerCase ` set vs"
  by (simp add: LowercaseSet_new_def set_foldl_add)

lemma LowercaseSet_new_member_lower:
  "k \<in> set (LowercaseSet_new vs) \<Longrightarrow> toLowerCase k = k"
  by (auto simp: set_LowercaseSet_new toLowerCase_idem)

lemma LowercaseSet_has_add:
  "LowercaseSet_has (LowercaseSet_add s v) w
     \<longleftrightarrow> toLowerCase w = toLowerCase v \<or> LowercaseSet_has s w"
  by (simp add: LowercaseSet_has_def set_LowercaseSet_add)

subsection \<open>What the loop of \<open>handleKeyDown\<close> performs\<close>

lemma keySets_nth:
  "i < length commands \<Longrightarrow> keySets commands ! i = LowercaseSet_new (keys (commands ! i))"
  by (simp add: keySets_def)

lemma commandCallbacks_nth:
  "i < length commands \<Longrightarrow> commandCallbacks commands ! i = callback (commands ! i)"
  by (simp add: commandCallbacks_def)

lemma keySets_member_lower:
  "i < length commands \<Longrightarrow> k \<in> set (keySets commands ! i) \<Longrightarrow> toLowerCase k = k"
  by (auto simp: keySets_nth dest: LowercaseSet_new_member_lower)

lemma Invoke_commandStep_iff:
  "Invoke i cb e' \<in> set (commandStep commands p e j) \<longleftrightarrow>
     i = j \<and> cb = commandCallbacks commands ! j \<and> e' = e
     \<and> checkModifiers p (modifiers (commands ! j))
     \<and> checkKeys p (keySets commands ! j) (triggerOnAnyKey (commands ! j))"
  by (auto simp: commandStep_def Let_def)

lemma PreventDefault_commandStep_iff:
  "PreventDefault e' \<in> set (commandStep commands p e j) \<longleftrightarrow>
     e' = e \<and> preventDefault (commands ! j) = Some True
     \<and> LowercaseSet_has (keySets commands ! j) (key e)"
  by (auto simp: commandStep_def Let_def)

lemma Invoke_loop_iff:
  "Invoke i cb e' \<in> set (concat (map (commandStep commands p e) [0..<length commands])) \<longleftrightarrow>
     i < length commands \<and> cb = callback (commands ! i) \<and> e' = e
     \<and> checkModifiers p (modifiers (commands ! i))
     \<and> checkKeys p (keySets commands ! i) (triggerOnAnyKey (commands ! i))"
  by (auto simp: Invoke_commandStep_iff commandCallbacks_nth)

lemma PreventDefault_loop_iff:
  "PreventDefault e' \<in> set (concat (map (commandStep commands p e) [0..<length commands])) \<longleftrightarrow>
     e' = e \<and> (\<exists>j<length commands. preventDefault (commands ! j) = Some True
       \<and> LowercaseSet_has (keySets commands ! j) (key e))"
  by (auto simp: PreventDefault_commandStep_iff)

lemma handleKeyDown_fresh:
  "\<not> LowercaseSet_has p (key e) \<Longrightarrow>
     handleKeyDown commands p e =
       (LowercaseSet_add p (key e),
        concat (map (commandStep commands (LowercaseSet_add p (key e)) e) [0..<length commands]))"
  by (simp add: handleKeyDown_def Let_def)

lemma handleKeyDown_held:
  "LowercaseSet_has p (key e) \<Longrightarrow> handleKeyDown commands p e = (p, [])"
  by (simp add: handleKeyDown_def)

lemma checkKeys_all_iff:
  assumes "\<forall>k\<in>set keySet. toLowerCase k = k" "anyKey \<noteq> Some True"
  shows "checkKeys p keySet anyKey \<longleftrightarrow> (\<forall>k\<in>set keySet. k \<in> set p)"
  using assms by (auto simp: checkKeys_def list_all_iff LowercaseSet_has_def)

lemma checkKeys_any_iff:
  assumes "\<forall>k\<in>set keySet. toLowerCase k = k"
  shows "checkKeys p keySet (Some True) \<longleftrightarrow> (\<exists>k\<in>set keySet. k \<in> set p)"
  using assms by (auto simp: checkKeys_def list_ex_iff LowercaseSet_has_def)

subsection \<open>The key check\<close>

text \<open>
  Claim C1. Take a key-down event whose normalized key is not yet in the Held-Key Set, and
  a registered binding (index \<open>i\<close>) whose modifier check passes on the Held-Key Set as it is
  after the pressed key was added. The handler adds the key. If the binding does not set
  \<open>triggerOnAnyKey\<close> to true, its callback is invoked with the event exactly when every key
  of its key set is in the Held-Key Set; if it does, exactly when at least one is.
\<close>

theorem C1_key_check:
  assumes fresh: "\<not> LowercaseSet_has pressedKeys (key e)"
    and i: "i < length commands"
    and mods: "checkModifiers (LowercaseSet_add pressedKeys (key e)) (modifiers (commands ! i))"
    and res: "handleKeyDown commands pressedKeys e = (held, effs)"
  shows "held = LowercaseSet_add pressedKeys (key e)
     \<and> (triggerOnAnyKey (commands ! i) \<noteq> Some True \<longrightarrow>
           (Invoke i (callback (commands ! i)) e \<in> set effs
             \<longleftrightarrow> (\<forall>k\<in>set (keySets commands ! i). k \<in> set held)))
     \<and> (triggerOnAnyKey (commands ! i) = Some True \<longrightarrow>
           (Invoke i (callback (commands ! i)) e \<in> set effs
             \<longleftrightarrow> (\<exists>k\<in>set (keySets commands ! i). k \<in> set held)))"
proof -
  from fresh res have h: "held = LowercaseSet_add pressedKeys (key e)"
    and effs: "effs = concat (map (commandStep commands held e) [0..<length commands])"
    by (auto simp: handleKeyDown_fresh)
  have low: "\<forall>k\<in>set (keySets commands ! i). toLowerCase k = k"
    using i by (blast dest: keySets_member_lower)
  have inv: "Invoke i (callback (commands ! i)) e \<in> set effs
      \<longleftrightarrow> checkKeys held (keySets commands ! i) (triggerOnAnyKey (commands ! i))"
    using i mods unfolding effs h Invoke_loop_iff by simp
  have "Invoke i (callback (commands ! i)) e \<in> set effs
             \<longleftrightarrow> (\<forall>k\<in>set (keySets commands ! i). k \<in> set held)"
    if "triggerOnAnyKey (commands ! i) \<noteq> Some True"
    using that inv checkKeys_all_iff [OF low] by simp
  moreover have "Invoke i (callback (commands ! i)) e \<in> set effs
             \<longleftrightarrow> (\<exists>k\<in>set (keySets commands ! i). k \<in> set held)"
    if "triggerOnAnyKey (commands ! i) = Some True"
    using that inv checkKeys_any_iff [OF low] by simp
  ultimately show ?thesis using h by blast
qed

text \<open>
  With \<open>a\<close> held, pressing \<open>b\<close> completes the combination \<open>a\<close> + \<open>B\<close>: both keys of the key set
  are held and the callback is invoked. With nothing held, pressing \<open>ArrowLeft\<close> alone invokes
  the callback of the binding to either arrow key.
\<close>

theorem C1_key_check_witness:
  "\<not> LowercaseSet_has [''a''] (key (keyEvent ''b''))
   \<and> 0 < length comboCommands
   \<and> checkModifiers (LowercaseSet_add [''a''] (key (keyEvent ''b''))) (modifiers (comboCommands ! 0))
   \<and> handleKeyDown comboCommands [''a''] (keyEvent ''b'')
       = ([''a'', ''b''], [Invoke 0 7 (keyEvent ''b'')])
   \<and> triggerOnAnyKey (comboCommands ! 0) \<noteq> Some True
   \<and> (Invoke 0 (callback (comboCommands ! 0)) (keyEvent ''b'') \<in> set [Invoke 0 7 (keyEvent ''b'')]
        \<longleftrightarrow> (\<forall>k\<in>set (keySets comboCommands ! 0). k \<in> set [''a'', ''b'']))
   \<and> \<not> LowercaseSet_has [] (key (keyEvent ''ArrowLeft''))
   \<and> 0 < length arrowCommands
   \<and> checkModifiers (LowercaseSet_add [] (key (keyEvent ''ArrowLeft'')))
        (modifiers (arrowCommands ! 0))
   \<and> handleKeyDown arrowCommands [] (keyEvent ''ArrowLeft'')
       = ([''arrowleft''], [Invoke 0 7 (keyEvent ''ArrowLeft'')])
   \<and> triggerOnAnyKey (arrowCommands ! 0) = Some True
   \<and> (Invoke 0 (callback (arrowCommands ! 0)) (keyEvent ''ArrowLeft'')
          \<in> set [Invoke 0 7 (keyEvent ''ArrowLeft'')]
        \<longleftrightarrow> (\<exists>k\<in>set (keySets arrowCommands ! 0). k \<in> set [''arrowleft'']))"
proof -
  have h1: "\<not> LowercaseSet_has [''a''] (key (keyEvent ''b''))" by code_simp
  have h2: "0 < length comboCommands" by code_simp
  have h3: "checkModifiers (LowercaseSet_add [''a''] (key (keyEvent ''b'')))
              (modifiers (comboCommands ! 0))" by code_simp
  have h4: "handleKeyDown comboCommands [''a''] (keyEvent ''b'')
              = ([''a'', ''b''], [Invoke 0 7 (keyEvent ''b'')])" by code_simp
  have h5: "triggerOnAnyKey (comboCommands ! 0) \<noteq> Some True" by code_simp
  from C1_key_check [OF h1 h2 h3 h4] h5
  have c: "Invoke 0 (callback (comboCommands ! 0)) (keyEvent ''b'') \<in> set [Invoke 0 7 (keyEvent ''b'')]
        \<longleftrightarrow> (\<forall>k\<in>set (keySets comboCommands ! 0). k \<in> set [''a'', ''b''])"
    by blast
  have g1: "\<not> LowercaseSet_has [] (key (keyEvent ''ArrowLeft''))" by code_simp
  have g2: "0 < length arrowCommands" by code_simp
  have g3: "checkModifiers (LowercaseSet_add [] (key (keyEvent ''ArrowLeft'')))
              (modifiers (arrowCommands ! 0))" by code_simp
  have g4: "handleKeyDown arrowCommands [] (keyEvent ''ArrowLeft'')
              = ([''arrowleft''], [Invoke 0 7 (keyEvent ''ArrowLeft'')])" by code_simp
  have g5: "triggerOnAnyKey (arrowCommands ! 0) = Some True" by code_simp
  from C1_key_check [OF g1 g2 g3 g4] g5
  have d: "Invoke 0 (callback (arrowCommands ! 0)) (keyEvent ''ArrowLeft'')
          \<in> set [Invoke 0 7 (keyEvent ''ArrowLeft'')]
        \<longleftrightarrow> (\<exists>k\<in>set (keySets arrowCommands ! 0). k \<in> set [''arrowleft''])"
    by blast
  show ?thesis by (intro conjI h1 h2 h3 h4 h5 c g1 g2 g3 g4 g5 d)
qed

subsection \<open>Registration\<close>

text \<open>
  Claim C5. If any descriptor passed to \<open>useKeys\<close> has an empty \<open>keys\<close> array, registration
  throws the error \<open>Empty keys array is not allowed\<close>; the function takes no event, so the
  error precedes every event. If every descriptor has a non-empty \<open>keys\<close> array, registration
  does not throw, and the Held-Key Set starts empty.
\<close>

theorem C5_registration:
  "((\<exists>cmd\<in>set commands. keys cmd = []) \<longrightarrow>
       useKeys commands = Inl (Error ''Empty keys array is not allowed''))
   \<and> ((\<forall>cmd\<in>set commands. keys cmd \<noteq> []) \<longrightarrow> useKeys commands = Inr [])"
  by (auto simp: useKeys_def list_ex_iff LowercaseSet_new_def)

text \<open>One registration with an empty \<open>keys\<close> array among its commands, one without.\<close>

theorem C5_registration_witness:
  "(\<exists>cmd\<in>set emptyKeysCommands. keys cmd = [])
   \<and> useKeys emptyKeysCommands = Inl (Error ''Empty keys array is not allowed'')
   \<and> list_all (\<lambda>cmd. keys cmd \<noteq> []) comboCommands
   \<and> useKeys comboCommands = Inr []"
proof -
  have h1: "\<exists>cmd\<in>set emptyKeysCommands. keys cmd = []" by code_simp
  have h2': "list_all (\<lambda>cmd. keys cmd \<noteq> []) comboCommands" by code_simp
  then have h2: "\<forall>cmd\<in>set comboCommands. keys cmd \<noteq> []" unfolding list_all_iff .
  have c1: "useKeys emptyKeysCommands = Inl (Error ''Empty keys array is not allowed'')"
    using C5_registration [of emptyKeysCommands] h1 by blast
  have c2: "useKeys comboCommands = Inr []"
    using C5_registration [of comboCommands] h2 by blast
  show ?thesis by (intro conjI h1 h2' c1 c2)
qed

subsection \<open>Key-up and focus-loss\<close>

text \<open>
  Claim C8. A key-up event removes the event's normalized key from the Held-Key Set and
  changes nothing else: every other held key stays, in its place, no callback is invoked and
  \<open>preventDefault\<close> is not called (the handler performs no effect).
\<close>

theorem C8_key_up:
  assumes "handleKeyUp commands pressedKeys e = (held, effs)"
  shows "effs = []
     \<and> set held = set pressedKeys - {toLowerCase (key e)}
     \<and> held = removeAll (toLowerCase (key e)) pressedKeys"
  using assms
  by (auto simp: handleKeyUp_def LowercaseSet_delete_def)

text \<open>Releasing \<open>A\<close> while \<open>a\<close> and \<open>b\<close> are held leaves \<open>b\<close>.\<close>

theorem C8_key_up_witness:
  "handleKeyUp comboCommands [''a'', ''b''] (keyEvent ''A'') = ([''b''], [])
   \<and> set [''b''] = set [''a'', ''b''] - {toLowerCase (key (keyEvent ''A''))}"
proof -
  have h: "handleKeyUp comboCommands [''a'', ''b''] (keyEvent ''A'') = ([''b''], [])"
    by code_simp
  from C8_key_up [OF h]
  have c: "set [''b''] = set [''a'', ''b''] - {toLowerCase (key (keyEvent ''A''))}"
    by blast
  show ?thesis by (intro conjI h c)
qed

text \<open>
  Claim C7. A focus-loss notification empties the Held-Key Set, whatever it held. The next
  key-down, also for a key that was held before the focus-loss and never released, is a fresh
  press: the key is added again and the loop over the bindings runs, so that a binding's
  callback is invoked exactly when its two checks pass.
\<close>

theorem C7_focus_loss:
  assumes "handleBlur commands pressedKeys = (cleared, effs)"
    and "handleKeyDown commands cleared e = (held, effs')"
  shows "cleared = [] \<and> effs = []
     \<and> held = [toLowerCase (key e)]
     \<and> effs' = concat (map (commandStep commands held e) [0..<length commands])
     \<and> (\<forall>i<length commands.
          Invoke i (callback (commands ! i)) e \<in> set effs' \<longleftrightarrow>
            checkModifiers held (modifiers (commands ! i))
            \<and> checkKeys held (keySets commands ! i) (triggerOnAnyKey (commands ! i)))"
proof -
  from assms(1) have c: "cleared = []" and e0: "effs = []"
    by (auto simp: handleBlur_def LowercaseSet_clear_def)
  have fresh: "\<not> LowercaseSet_has cleared (key e)"
    by (simp add: c LowercaseSet_has_def)
  from assms(2) fresh have h: "held = [toLowerCase (key e)]"
    and e1: "effs' = concat (map (commandStep commands held e) [0..<length commands])"
    unfolding c by (auto simp: handleKeyDown_fresh LowercaseSet_add_def)
  have "\<forall>i<length commands.
          Invoke i (callback (commands ! i)) e \<in> set effs' \<longleftrightarrow>
            checkModifiers held (modifiers (commands ! i))
            \<and> checkKeys held (keySets commands ! i) (triggerOnAnyKey (commands ! i))"
    unfolding e1 Invoke_loop_iff by simp
  with c e0 h e1 show ?thesis by blast
qed


text \<open>
  Two key-downs for \<open>a\<close> in a row invoke the callback once; with a focus-loss between them
  the callback is invoked twice.
\<close>

theorem C7_focus_loss_witness:
  "run singleKeyCommands [] [KeyDown (keyEvent ''a''), KeyDown (keyEvent ''a'')]
     = ([''a''], [Invoke 0 7 (keyEvent ''a'')])
   \<and> run singleKeyCommands [] [KeyDown (keyEvent ''a''), Blur, KeyDown (keyEvent ''a'')]
     = ([''a''], [Invoke 0 7 (keyEvent ''a''), Invoke 0 7 (keyEvent ''a'')])
   \<and> handleBlur singleKeyCommands [''a''] = ([], [])
   \<and> handleKeyDown singleKeyCommands [] (keyEvent ''a'') = ([''a''], [Invoke 0 7 (keyEvent ''a'')])
   \<and> (Invoke 0 (callback (singleKeyCommands ! 0)) (keyEvent ''a'')
            \<in> set [Invoke 0 7 (keyEvent ''a'')] \<longleftrightarrow>
            checkModifiers [''a''] (modifiers (singleKeyCommands ! 0))
            \<and> checkKeys [''a''] (keySets singleKeyCommands ! 0)
                 (triggerOnAnyKey (singleKeyCommands ! 0)))"
proof -
  have r1: "run singleKeyCommands [] [KeyDown (keyEvent ''a''), KeyDown (keyEvent ''a'')]
     = ([''a''], [Invoke 0 7 (keyEvent ''a'')])" by code_simp
  have r2: "run singleKeyCommands [] [KeyDown (keyEvent ''a''), Blur, KeyDown (keyEvent ''a'')]
     = ([''a''], [Invoke 0 7 (keyEvent ''a''), Invoke 0 7 (keyEvent ''a'')])" by code_simp
  have h1: "handleBlur singleKeyCommands [''a''] = ([], [])" by code_simp
  have h2: "handleKeyDown singleKeyCommands [] (keyEvent ''a'')
              = ([''a''], [Invoke 0 7 (keyEvent ''a'')])" by code_simp
  have h3: "0 < length singleKeyCommands" by code_simp
  from C7_focus_loss [OF h1 h2] h3
  have c: "Invoke 0 (callback (singleKeyCommands ! 0)) (keyEvent ''a'')
            \<in> set [Invoke 0 7 (keyEvent ''a'')] \<longleftrightarrow>
            checkModifiers [''a''] (modifiers (singleKeyCommands ! 0))
            \<and> checkKeys [''a''] (keySets singleKeyCommands ! 0)
                 (triggerOnAnyKey (singleKeyCommands ! 0))"
    by blast
  show ?thesis by (intro conjI r1 r2 h1 h2 c)
qed

subsection \<open>The modifier check\<close>

lemma checkModifiers_unconstrained:
  "mods = None \<or> mods = Some [] \<Longrightarrow> checkModifiers p mods"
  by (auto simp: checkModifiers_def)

lemma checkModifiers_entries:
  "entries \<noteq> [] \<Longrightarrow>
     checkModifiers p (Some entries)
       \<longleftrightarrow> (\<forall>(modifier, required)\<in>set entries. required = Some (LowercaseSet_has p modifier))"
  by (simp add: checkModifiers_def list_all_iff)

lemma checkModifiers_unnamed_key:
  assumes "checkModifiers p mods"
    and "\<forall>entries. mods = Some entries \<longrightarrow>
           (\<forall>(modifier, required)\<in>set entries. toLowerCase modifier \<noteq> toLowerCase k)"
  shows "checkModifiers (LowercaseSet_add p k) mods"
  using assms
  by (fastforce simp: checkModifiers_def list_all_iff LowercaseSet_has_add split: option.splits)

text \<open>
  Claim C2. Take a key-down event that triggers evaluation (its key was not held) and a
  binding. If the binding's modifiers map names at least one modifier and the callback is
  invoked, then for every named modifier the required boolean equals whether that modifier
  is in the Held-Key Set. If the map is absent or empty, the binding is evaluated with no
  modifier constraint: its callback is invoked exactly when the key check passes, whatever
  the Held-Key Set contains besides, modifier keys included.
\<close>

theorem C2_modifier_check:
  assumes fresh: "\<not> LowercaseSet_has pressedKeys (key e)"
    and res: "handleKeyDown commands pressedKeys e = (held, effs)"
    and i: "i < length commands"
  shows "(\<forall>entries. modifiers (commands ! i) = Some entries \<and> entries \<noteq> []
            \<and> Invoke i (callback (commands ! i)) e \<in> set effs \<longrightarrow>
          (\<forall>(modifier, required)\<in>set entries. required = Some (LowercaseSet_has held modifier)))
     \<and> (modifiers (commands ! i) = None \<or> modifiers (commands ! i) = Some [] \<longrightarrow>
          (Invoke i (callback (commands ! i)) e \<in> set effs
             \<longleftrightarrow> checkKeys held (keySets commands ! i) (triggerOnAnyKey (commands ! i))))"
proof -
  from fresh res
  have effs: "effs = concat (map (commandStep commands held e) [0..<length commands])"
    by (auto simp: handleKeyDown_fresh)
  have inv: "Invoke i (callback (commands ! i)) e \<in> set effs \<longleftrightarrow>
      checkModifiers held (modifiers (commands ! i))
      \<and> checkKeys held (keySets commands ! i) (triggerOnAnyKey (commands ! i))"
    using i unfolding effs Invoke_loop_iff by simp
  show ?thesis
    unfolding inv using checkModifiers_unconstrained [of "modifiers (commands ! i)" held]
    by (auto simp: checkModifiers_entries)
qed

text \<open>
  The save binding fires on \<open>s\<close> with \<open>Control\<close> held; the combination \<open>a\<close> + \<open>B\<close>, which has no
  modifiers map, fires although \<open>Control\<close> is held too.
\<close>

theorem C2_modifier_check_witness:
  "\<not> LowercaseSet_has [''control''] (key (keyEvent ''s''))
   \<and> handleKeyDown saveCommands [''control''] (keyEvent ''s'')
       = ([''control'', ''s''], [PreventDefault (keyEvent ''s''), Invoke 0 7 (keyEvent ''s'')])
   \<and> 0 < length saveCommands
   \<and> modifiers (saveCommands ! 0) = Some [(''Control'', Some True)]
   \<and> list_all (\<lambda>(modifier, required).
         required = Some (LowercaseSet_has [''control'', ''s''] modifier)) [(''Control'', Some True)]
   \<and> \<not> LowercaseSet_has [''control'', ''a''] (key (keyEvent ''b''))
   \<and> handleKeyDown comboCommands [''control'', ''a''] (keyEvent ''b'')
       = ([''control'', ''a'', ''b''], [Invoke 0 7 (keyEvent ''b'')])
   \<and> modifiers (comboCommands ! 0) = None
   \<and> (Invoke 0 (callback (comboCommands ! 0)) (keyEvent ''b'') \<in> set [Invoke 0 7 (keyEvent ''b'')]
        \<longleftrightarrow> checkKeys [''control'', ''a'', ''b''] (keySets comboCommands ! 0)
              (triggerOnAnyKey (comboCommands ! 0)))"
proof -
  have h1: "\<not> LowercaseSet_has [''control''] (key (keyEvent ''s''))" by code_simp
  have h2: "handleKeyDown saveCommands [''control''] (keyEvent ''s'')
       = ([''control'', ''s''], [PreventDefault (keyEvent ''s''), Invoke 0 7 (keyEvent ''s'')])"
    by code_simp
  have h3: "0 < length saveCommands" by code_simp
  have m1: "modifiers (saveCommands ! 0) = Some [(''Control'', Some True)]" by code_simp
  have f1: "Invoke 0 (callback (saveCommands ! 0)) (keyEvent ''s'')
              \<in> set [PreventDefault (keyEvent ''s''), Invoke 0 7 (keyEvent ''s'')]" by code_simp
  have "\<forall>(modifier, required)\<in>set [(''Control'', Some True)].
         required = Some (LowercaseSet_has [''control'', ''s''] modifier)"
    using C2_modifier_check [OF h1 h2 h3] m1 f1 by blast
  then have c1: "list_all (\<lambda>(modifier, required).
         required = Some (LowercaseSet_has [''control'', ''s''] modifier)) [(''Control'', Some True)]"
    unfolding list_all_iff .
  have g1: "\<not> LowercaseSet_has [''control'', ''a''] (key (keyEvent ''b''))" by code_simp
  have g2: "handleKeyDown comboCommands [''control'', ''a''] (keyEvent ''b'')
       = ([''control'', ''a'', ''b''], [Invoke 0 7 (keyEvent ''b'')])" by code_simp
  have g3: "0 < length comboCommands" by code_simp
  have m2: "modifiers (comboCommands ! 0) = None" by code_simp
  have c2: "Invoke 0 (callback (comboCommands ! 0)) (keyEvent ''b'') \<in> set [Invoke 0 7 (keyEvent ''b'')]
        \<longleftrightarrow> checkKeys [''control'', ''a'', ''b''] (keySets comboCommands ! 0)
              (triggerOnAnyKey (comboCommands ! 0))"
    using C2_modifier_check [OF g1 g2 g3] m2 by blast
  show ?thesis by (intro conjI h1 h2 h3 m1 c1 g1 g2 m2 c2)
qed

subsection \<open>Modifiers are read from the Held-Key Set\<close>

lemma commandStep_key_only:
  "key e2 = key e \<Longrightarrow>
     commandStep commands p e2 = (\<lambda>j. map (withEvent e2) (commandStep commands p e j))"
  by (rule ext) (simp add: commandStep_def Let_def)

lemma handleKeyDown_key_only:
  assumes k: "key e2 = key e" and res: "handleKeyDown commands p e = (held, effs)"
  shows "handleKeyDown commands p e2 = (held, map (withEvent e2) effs)"
proof (cases "LowercaseSet_has p (key e)")
  case True
  with k res show ?thesis by (auto simp: handleKeyDown_held)
next
  case False
  with res have h: "held = LowercaseSet_add p (key e)"
    and effs: "effs = concat (map (commandStep commands held e) [0..<length commands])"
    by (auto simp: handleKeyDown_fresh)
  from False k have "\<not> LowercaseSet_has p (key e2)" by simp
  then show ?thesis
    by (simp add: handleKeyDown_fresh k h effs map_concat commandStep_key_only [OF k] comp_def)
qed

lemma dispatch_held_subset:
  "dispatch commands p n = (p', effs) \<Longrightarrow> set p' \<subseteq> set p \<union> set (keyDowns [n])"
  by (cases n)
     (auto simp: handleKeyDown_def handleKeyUp_def handleBlur_def Let_def LowercaseSet_clear_def
        set_LowercaseSet_add set_LowercaseSet_delete split: if_splits)

lemma keyDowns_append: "keyDowns (ns @ ms) = keyDowns ns @ keyDowns ms"
  by (induction ns rule: keyDowns.induct) simp_all

lemma run_held_subset:
  "run commands p ns = (p', effs) \<Longrightarrow> set p' \<subseteq> set p \<union> set (keyDowns ns)"
proof (induction ns arbitrary: p p' effs)
  case Nil
  then show ?case by simp
next
  case (Cons n ns)
  obtain p1 effs1 where d: "dispatch commands p n = (p1, effs1)"
    by (cases "dispatch commands p n")
  obtain p2 effs2 where r: "run commands p1 ns = (p2, effs2)"
    by (cases "run commands p1 ns")
  from Cons.prems d r have "p' = p2" by simp
  moreover from Cons.IH [OF r] have "set p2 \<subseteq> set p1 \<union> set (keyDowns ns)" .
  moreover from dispatch_held_subset [OF d] have "set p1 \<subseteq> set p \<union> set (keyDowns [n])" .
  moreover have "keyDowns (n # ns) = keyDowns [n] @ keyDowns ns"
    using keyDowns_append [of "[n]" ns] by simp
  ultimately show ?case by auto
qed

text \<open>
  Claim C9. Let the Held-Key Set be the result of any sequence of notifications, and let a
  key-down invoke the callback of a binding whose modifiers map requires a modifier to be
  true. Then the modifier's name is in the Held-Key Set at the check, and it came there by a
  key-down notification of the sequence (the present one included) that was not removed
  since. The raw modifier flags of the event play no part: an event with the same key and
  any other flags yields the same Held-Key Set and the same effects, on that event.
\<close>

theorem C9_modifiers_from_held_set:
  assumes hist: "run commands [] ns = (pressedKeys, effs0)"
    and res: "handleKeyDown commands pressedKeys e = (held, effs)"
    and fired: "Invoke i cb e' \<in> set effs"
    and mods: "modifiers (commands ! i) = Some entries"
    and req: "(modifier, Some True) \<in> set entries"
  shows "LowercaseSet_has held modifier
     \<and> toLowerCase modifier \<in> set (keyDowns (ns @ [KeyDown e]))
     \<and> (\<forall>e2. key e2 = key e \<longrightarrow>
           handleKeyDown commands pressedKeys e2 = (held, map (withEvent e2) effs))"
proof -
  from fired res have fresh: "\<not> LowercaseSet_has pressedKeys (key e)"
    by (auto simp: handleKeyDown_def split: if_splits)
  with res have h: "held = LowercaseSet_add pressedKeys (key e)"
    and effs: "effs = concat (map (commandStep commands held e) [0..<length commands])"
    by (auto simp: handleKeyDown_fresh)
  from fired have cm: "checkModifiers held (modifiers (commands ! i))"
    unfolding effs Invoke_loop_iff by simp
  from req have ne: "entries \<noteq> []" by auto
  from cm mods ne req have has: "LowercaseSet_has held modifier"
    by (auto simp: checkModifiers_entries)
  from run_held_subset [OF hist] have "set pressedKeys \<subseteq> set (keyDowns ns)" by simp
  with has have "toLowerCase modifier \<in> set (keyDowns (ns @ [KeyDown e]))"
    by (auto simp: h LowercaseSet_has_def set_LowercaseSet_add keyDowns_append)
  with has handleKeyDown_key_only [OF _ res] show ?thesis by blast
qed

text \<open>
  With \<open>Control\<close> pressed before, \<open>s\<close> fires the save binding. An \<open>s\<close> event that reports
  \<open>ctrlKey\<close> while no key-down for \<open>Control\<close> was recorded does not.
\<close>

theorem C9_modifiers_from_held_set_witness:
  "run saveCommands [] [KeyDown (keyEvent ''Control'')] = ([''control''], [])
   \<and> handleKeyDown saveCommands [''control''] (keyEvent ''s'')
       = ([''control'', ''s''], [PreventDefault (keyEvent ''s''), Invoke 0 7 (keyEvent ''s'')])
   \<and> modifiers (saveCommands ! 0) = Some [(''Control'', Some True)]
   \<and> LowercaseSet_has [''control'', ''s''] ''Control''
   \<and> toLowerCase ''Control'' \<in> set (keyDowns ([KeyDown (keyEvent ''Control'')] @ [KeyDown (keyEvent ''s'')]))
   \<and> handleKeyDown saveCommands [] ((keyEvent ''s'')\<lparr>ctrlKey := True\<rparr>)
       = ([''s''], [PreventDefault ((keyEvent ''s'')\<lparr>ctrlKey := True\<rparr>)])"
proof -
  have h1: "run saveCommands [] [KeyDown (keyEvent ''Control'')] = ([''control''], [])"
    by code_simp
  have h2: "handleKeyDown saveCommands [''control''] (keyEvent ''s'')
       = ([''control'', ''s''], [PreventDefault (keyEvent ''s''), Invoke 0 7 (keyEvent ''s'')])"
    by code_simp
  have h3: "Invoke 0 7 (keyEvent ''s'')
              \<in> set [PreventDefault (keyEvent ''s''), Invoke 0 7 (keyEvent ''s'')]" by simp
  have h4: "modifiers (saveCommands ! 0) = Some [(''Control'', Some True)]" by code_simp
  have h5: "(''Control'', Some True) \<in> set [(''Control'', Some True)]" by simp
  note c = C9_modifiers_from_held_set [OF h1 h2 h3 h4 h5]
  have n: "handleKeyDown saveCommands [] ((keyEvent ''s'')\<lparr>ctrlKey := True\<rparr>)
       = ([''s''], [PreventDefault ((keyEvent ''s'')\<lparr>ctrlKey := True\<rparr>)])" by code_simp
  show ?thesis
    by (intro conjI h1 h2 h4 c [THEN conjunct1] c [THEN conjunct2, THEN conjunct1] n)
qed

subsection \<open>A key outside the key set\<close>

text \<open>
  Claim C10. Take a binding that requires all its keys, all of them held, and a fresh
  key-down whose modifier check passes (the check the handler performs, on the Held-Key Set
  that includes the pressed key; by \<open>checkModifiers_unnamed_key\<close> it passes whenever it
  passed before the press and the pressed key is not named in the modifiers map). Then the
  pressed key is not in the binding's key set, and the binding's callback is invoked with
  the event of that key.
\<close>

theorem C10_unrelated_key_fires:
  assumes i: "i < length commands"
    and allKeys: "triggerOnAnyKey (commands ! i) \<noteq> Some True"
    and held: "\<forall>k\<in>set (keySets commands ! i). k \<in> set pressedKeys"
    and fresh: "\<not> LowercaseSet_has pressedKeys (key e)"
    and mods: "checkModifiers (LowercaseSet_add pressedKeys (key e)) (modifiers (commands ! i))"
  shows "\<not> LowercaseSet_has (keySets commands ! i) (key e)
     \<and> Invoke i (callback (commands ! i)) e \<in> set (snd (handleKeyDown commands pressedKeys e))"
proof -
  have unrelated: "\<not> LowercaseSet_has (keySets commands ! i) (key e)"
    using held fresh by (auto simp: LowercaseSet_has_def)
  have low: "\<forall>k\<in>set (keySets commands ! i). toLowerCase k = k"
    using i by (blast dest: keySets_member_lower)
  have "\<forall>k\<in>set (keySets commands ! i). k \<in> set (LowercaseSet_add pressedKeys (key e))"
    using held by (simp add: set_LowercaseSet_add)
  then have "checkKeys (LowercaseSet_add pressedKeys (key e)) (keySets commands ! i)
               (triggerOnAnyKey (commands ! i))"
    using checkKeys_all_iff [OF low allKeys] by simp
  then have "Invoke i (callback (commands ! i)) e \<in> set (snd (handleKeyDown commands pressedKeys e))"
    using i mods unfolding handleKeyDown_fresh [OF fresh] snd_conv Invoke_loop_iff by simp
  with unrelated show ?thesis by simp
qed

text \<open>With \<open>a\<close> held, pressing \<open>x\<close> invokes the callback of the binding to \<open>a\<close>.\<close>

theorem C10_unrelated_key_fires_witness:
  "0 < length singleKeyCommands
   \<and> triggerOnAnyKey (singleKeyCommands ! 0) \<noteq> Some True
   \<and> list_all (\<lambda>k. k \<in> set [''a'']) (keySets singleKeyCommands ! 0)
   \<and> \<not> LowercaseSet_has [''a''] (key (keyEvent ''x''))
   \<and> checkModifiers (LowercaseSet_add [''a''] (key (keyEvent ''x''))) (modifiers (singleKeyCommands ! 0))
   \<and> \<not> LowercaseSet_has (keySets singleKeyCommands ! 0) (key (keyEvent ''x''))
   \<and> Invoke 0 (callback (singleKeyCommands ! 0)) (keyEvent ''x'')
        \<in> set (snd (handleKeyDown singleKeyCommands [''a''] (keyEvent ''x'')))
   \<and> handleKeyDown singleKeyCommands [''a''] (keyEvent ''x'')
        = ([''a'', ''x''], [Invoke 0 7 (keyEvent ''x'')])"
proof -
  have h1: "0 < length singleKeyCommands" by code_simp
  have h2: "triggerOnAnyKey (singleKeyCommands ! 0) \<noteq> Some True" by code_simp
  have h3': "list_all (\<lambda>k. k \<in> set [''a'']) (keySets singleKeyCommands ! 0)" by code_simp
  then have h3: "\<forall>k\<in>set (keySets singleKeyCommands ! 0). k \<in> set [''a'']"
    unfolding list_all_iff .
  have h4: "\<not> LowercaseSet_has [''a''] (key (keyEvent ''x''))" by code_simp
  have h5: "checkModifiers (LowercaseSet_add [''a''] (key (keyEvent ''x'')))
              (modifiers (singleKeyCommands ! 0))" by code_simp
  note c = C10_unrelated_key_fires [OF h1 h2 h3 h4 h5]
  have v: "handleKeyDown singleKeyCommands [''a''] (keyEvent ''x'')
        = ([''a'', ''x''], [Invoke 0 7 (keyEvent ''x'')])" by code_simp
  show ?thesis by (intro conjI h1 h2 h3' h4 h5 c [THEN conjunct1] c [THEN conjunct2] v)
qed

subsection \<open>Repeated key-down notifications\<close>

lemma run_append:
  "run commands p (ns @ ms) =
     (let (p', effs) = run commands p ns;
          (p'', effs') = run commands p' ms
      in (p'', effs @ effs'))"
  by (induction ns arbitrary: p) (simp_all add: Let_def split: prod.splits)

text \<open>
  Claim C3 says that a key-down for a key already held re-invokes the callback of a binding
  whose repeat-on-hold flag is true. The command of the README's continuous movement example
  carries \<open>enableKeyRepeatOnHold = true\<close>; its callback is invoked on the first key-down and
  not on the repeated one.
\<close>

theorem C3_repeat_counterexample:
  "enableKeyRepeatOnHold (repeatCommands ! 0) = Some True
   \<and> handleKeyDown repeatCommands [] (keyEvent ''ArrowRight'')
       = ([''arrowright''], [Invoke 0 7 (keyEvent ''ArrowRight'')])
   \<and> LowercaseSet_has [''arrowright''] (key (keyEvent ''ArrowRight''))
   \<and> handleKeyDown repeatCommands [''arrowright''] (keyEvent ''ArrowRight'')
       = ([''arrowright''], [])"
  by code_simp

text \<open>
  Claim C3, amended. After any sequence of notifications, a key-down for a key that is in the
  Held-Key Set returns at once: the Held-Key Set is unchanged and no callback of any binding
  is invoked, whether or not the binding carries a repeat-on-hold flag (the handler reads no
  such flag). The effects of the sequence extended by the repeat are those of the sequence.
\<close>

theorem C3_no_repeat:
  assumes "run commands [] ns = (pressedKeys, effs)"
    and "LowercaseSet_has pressedKeys (key e)"
  shows "handleKeyDown commands pressedKeys e = (pressedKeys, [])
     \<and> run commands [] (ns @ [KeyDown e]) = (pressedKeys, effs)"
  using assms by (simp add: run_append handleKeyDown_held)

theorem C3_no_repeat_witness:
  "run repeatCommands [] [KeyDown (keyEvent ''ArrowRight'')]
     = ([''arrowright''], [Invoke 0 7 (keyEvent ''ArrowRight'')])
   \<and> LowercaseSet_has [''arrowright''] (key (keyEvent ''ArrowRight''))
   \<and> handleKeyDown repeatCommands [''arrowright''] (keyEvent ''ArrowRight'') = ([''arrowright''], [])
   \<and> run repeatCommands [] ([KeyDown (keyEvent ''ArrowRight'')] @ [KeyDown (keyEvent ''ArrowRight'')])
       = ([''arrowright''], [Invoke 0 7 (keyEvent ''ArrowRight'')])"
proof -
  have h1: "run repeatCommands [] [KeyDown (keyEvent ''ArrowRight'')]
     = ([''arrowright''], [Invoke 0 7 (keyEvent ''ArrowRight'')])" by code_simp
  have h2: "LowercaseSet_has [''arrowright''] (key (keyEvent ''ArrowRight''))" by code_simp
  note c = C3_no_repeat [OF h1 h2]
  show ?thesis by (intro conjI h1 h2 c [THEN conjunct1] c [THEN conjunct2])
qed

subsection \<open>Suppressing the default action\<close>

lemma PreventDefault_fresh_iff:
  assumes "\<not> LowercaseSet_has pressedKeys (key e)"
  shows "PreventDefault e \<in> set (snd (handleKeyDown commands pressedKeys e)) \<longleftrightarrow>
     (\<exists>j<length commands. preventDefault (commands ! j) = Some True
        \<and> LowercaseSet_has (keySets commands ! j) (key e))"
  unfolding handleKeyDown_fresh [OF assms] snd_conv PreventDefault_loop_iff by simp

text \<open>
  Claim C4 asks for \<open>preventDefault\<close> on every key-down whose key is in the key set of a
  binding with \<open>preventDefault = true\<close>, also when the key was already held. On a fresh
  key-down the handler does call it, before and independently of the two checks
  (\<open>PreventDefault_fresh_iff\<close>). On a repeated key-down the handler returns before the loop:
  the first \<open>ArrowDown\<close> is suppressed, the repeated one is not.
\<close>

theorem C4_repeat_keydown_not_suppressed:
  "preventDefault (scrollCommands ! 0) = Some True
   \<and> LowercaseSet_has (keySets scrollCommands ! 0) (key (keyEvent ''ArrowDown''))
   \<and> handleKeyDown scrollCommands [] (keyEvent ''ArrowDown'')
       = ([''arrowdown''], [PreventDefault (keyEvent ''ArrowDown''), Invoke 0 7 (keyEvent ''ArrowDown'')])
   \<and> handleKeyDown scrollCommands [''arrowdown''] (keyEvent ''ArrowDown'')
       = ([''arrowdown''], [])"
  by code_simp

subsection \<open>Letter-case\<close>

lemma LowercaseSet_ops_sameKey:
  assumes "sameKey k k'"
  shows "LowercaseSet_has s k = LowercaseSet_has s k'"
    and "LowercaseSet_add s k = LowercaseSet_add s k'"
    and "LowercaseSet_delete s k = LowercaseSet_delete s k'"
  using sameKey_toLowerCase [OF assms]
  by (simp_all add: LowercaseSet_has_def LowercaseSet_add_def LowercaseSet_delete_def)

lemma foldl_add_sameKey:
  "list_all2 sameKey ks ks' \<Longrightarrow> foldl LowercaseSet_add acc ks = foldl LowercaseSet_add acc ks'"
proof (induction ks ks' arbitrary: acc rule: list_all2_induct)
  case Nil
  show ?case by simp
next
  case (Cons k ks k' ks')
  then show ?case by (simp add: LowercaseSet_ops_sameKey(2) [of k k'])
qed

lemma LowercaseSet_new_sameKey:
  "list_all2 sameKey ks ks' \<Longrightarrow> LowercaseSet_new ks = LowercaseSet_new ks'"
  by (simp add: LowercaseSet_new_def foldl_add_sameKey)

lemma sameCommand_nth:
  "list_all2 sameCommand cs cs' \<Longrightarrow> j < length cs \<Longrightarrow> sameCommand (cs ! j) (cs' ! j)"
  by (simp add: list_all2_nthD)

lemma keySets_sameCommand:
  assumes "list_all2 sameCommand cs cs'" "j < length cs"
  shows "keySets cs ! j = keySets cs' ! j"
proof -
  from assms have "j < length cs'" by (simp add: list_all2_lengthD)
  moreover from sameCommand_nth [OF assms]
  have "LowercaseSet_new (keys (cs ! j)) = LowercaseSet_new (keys (cs' ! j))"
    by (simp add: sameCommand_def LowercaseSet_new_sameKey)
  ultimately show ?thesis using assms(2) by (simp add: keySets_nth)
qed

lemma commandCallbacks_sameCommand:
  assumes "list_all2 sameCommand cs cs'" "j < length cs"
  shows "commandCallbacks cs ! j = commandCallbacks cs' ! j"
proof -
  from assms have "j < length cs'" by (simp add: list_all2_lengthD)
  with sameCommand_nth [OF assms] assms(2) show ?thesis
    by (simp add: commandCallbacks_nth sameCommand_def)
qed

lemma list_all_sameEntry:
  "list_all2 sameEntry es es' \<Longrightarrow>
     list_all (\<lambda>(modifier, required). required = Some (LowercaseSet_has p modifier)) es
     = list_all (\<lambda>(modifier, required). required = Some (LowercaseSet_has p modifier)) es'"
proof (induction es es' rule: list_all2_induct)
  case Nil
  show ?case by simp
next
  case (Cons x xs y ys)
  obtain m r m' r' where xy: "x = (m, r)" "y = (m', r')" by (cases x, cases y) auto
  with Cons.hyps(1) have "sameKey m m'" "r = r'" by simp_all
  with Cons.IH xy show ?case by (simp add: LowercaseSet_ops_sameKey(1) [of m m'])
qed

lemma checkModifiers_sameModifiers:
  "sameModifiers mods mods' \<Longrightarrow> checkModifiers p mods = checkModifiers p mods'"
proof (induction mods mods' rule: sameModifiers.induct)
  case 1
  show ?case by simp
next
  case (2 entries entries')
  then have a: "list_all2 sameEntry entries entries'" by simp
  then have "length entries = length entries'" by (rule list_all2_lengthD)
  with list_all_sameEntry [OF a, of p] show ?case by (simp add: checkModifiers_def)
qed simp_all

lemma commandStep_sameCommand:
  assumes cs: "list_all2 sameCommand cs cs'" and e: "sameEvent e e'" and j: "j < length cs"
  shows "list_all2 sameEffect (commandStep cs p e j) (commandStep cs' p e' j)"
proof -
  from sameCommand_nth [OF cs j]
  have c: "triggerOnAnyKey (cs ! j) = triggerOnAnyKey (cs' ! j)"
    "preventDefault (cs ! j) = preventDefault (cs' ! j)"
    "sameModifiers (modifiers (cs ! j)) (modifiers (cs' ! j))"
    by (simp_all add: sameCommand_def)
  from e have k: "sameKey (key e) (key e')" by (simp add: sameEvent_def)
  show ?thesis
    using e
    by (simp add: commandStep_def Let_def keySets_sameCommand [OF cs j]
        commandCallbacks_sameCommand [OF cs j] c(1,2) checkModifiers_sameModifiers [OF c(3)]
        LowercaseSet_ops_sameKey(1) [OF k])
qed

lemma list_all2_concat:
  "list_all2 (list_all2 R) xss yss \<Longrightarrow> list_all2 R (concat xss) (concat yss)"
  by (induction xss yss rule: list_all2_induct) (simp_all add: list_all2_appendI)

lemma loop_sameCommand:
  assumes cs: "list_all2 sameCommand cs cs'" and e: "sameEvent e e'"
  shows "list_all2 sameEffect
           (concat (map (commandStep cs p e) [0..<length cs]))
           (concat (map (commandStep cs' p e') [0..<length cs']))"
proof -
  from cs have len: "length cs' = length cs" by (simp add: list_all2_lengthD)
  have "list_all2 (list_all2 sameEffect)
          (map (commandStep cs p e) [0..<length cs]) (map (commandStep cs' p e') [0..<length cs])"
    by (rule list_all2_all_nthI) (simp_all add: commandStep_sameCommand [OF cs e])
  then show ?thesis unfolding len by (rule list_all2_concat)
qed

lemma handleKeyDown_sameCommand:
  assumes cs: "list_all2 sameCommand cs cs'" and e: "sameEvent e e'"
  shows "fst (handleKeyDown cs p e) = fst (handleKeyDown cs' p e')
     \<and> list_all2 sameEffect (snd (handleKeyDown cs p e)) (snd (handleKeyDown cs' p e'))"
proof -
  from e have k: "sameKey (key e) (key e')" by (simp add: sameEvent_def)
  show ?thesis
    using loop_sameCommand [OF cs e]
    by (simp add: handleKeyDown_def Let_def LowercaseSet_ops_sameKey(1,2) [OF k])
qed

lemma dispatch_sameCommand:
  assumes cs: "list_all2 sameCommand cs cs'" and n: "sameNotification n n'"
  shows "fst (dispatch cs p n) = fst (dispatch cs' p n')
     \<and> list_all2 sameEffect (snd (dispatch cs p n)) (snd (dispatch cs' p n'))"
proof (cases n)
  case (KeyDown e)
  with n obtain e' where "n' = KeyDown e'" "sameEvent e e'" by (cases n') simp_all
  with KeyDown handleKeyDown_sameCommand [OF cs] show ?thesis by simp
next
  case (KeyUp e)
  with n obtain e' where n': "n' = KeyUp e'" "sameEvent e e'" by (cases n') simp_all
  then have "sameKey (key e) (key e')" by (simp add: sameEvent_def)
  with KeyUp n' show ?thesis
    by (simp add: handleKeyUp_def LowercaseSet_ops_sameKey(3))
next
  case Blur
  with n have "n' = Blur" by (cases n') simp_all
  with Blur show ?thesis by (simp add: handleBlur_def)
qed

lemma run_sameCommand:
  assumes cs: "list_all2 sameCommand cs cs'"
  shows "list_all2 sameNotification ns ns' \<Longrightarrow>
     fst (run cs p ns) = fst (run cs' p ns')
     \<and> list_all2 sameEffect (snd (run cs p ns)) (snd (run cs' p ns'))"
proof (induction ns ns' arbitrary: p rule: list_all2_induct)
  case Nil
  show ?case by simp
next
  case (Cons n ns n' ns')
  from dispatch_sameCommand [OF cs Cons.hyps(1), of p]
  have d: "fst (dispatch cs p n) = fst (dispatch cs' p n')"
    "list_all2 sameEffect (snd (dispatch cs p n)) (snd (dispatch cs' p n'))" by simp_all
  from Cons.IH [of "fst (dispatch cs p n)"] d
  show ?case by (simp add: Let_def split_beta list_all2_appendI)
qed

lemma useKeys_sameCommand:
  "list_all2 sameCommand cs cs' \<Longrightarrow> useKeys cs = useKeys cs'"
proof (induction cs cs' rule: list_all2_induct)
  case Nil
  show ?case by (simp add: useKeys_def)
next
  case (Cons c cs c' cs')
  from Cons.hyps(1) have "list_all2 sameKey (keys c) (keys c')"
    by (simp add: sameCommand_def)
  then have "length (keys c) = length (keys c')" by (rule list_all2_lengthD)
  then have "keys c = [] \<longleftrightarrow> keys c' = []" by (metis length_0_conv)
  with Cons.IH show ?case by (simp add: useKeys_def split: if_splits)
qed

lemma dispatch_lower:
  assumes "\<forall>k\<in>set p. toLowerCase k = k"
  shows "\<forall>k\<in>set (fst (dispatch commands p n)). toLowerCase k = k"
  using assms
  by (cases n)
     (auto simp: handleKeyDown_def handleKeyUp_def handleBlur_def Let_def LowercaseSet_clear_def
        set_LowercaseSet_add set_LowercaseSet_delete toLowerCase_idem)

lemma run_lower:
  "\<forall>k\<in>set p. toLowerCase k = k \<Longrightarrow> \<forall>k\<in>set (fst (run commands p ns)). toLowerCase k = k"
proof (induction ns arbitrary: p)
  case Nil
  then show ?case by simp
next
  case (Cons n ns)
  from Cons.IH [OF dispatch_lower [OF Cons.prems, of commands n]]
  show ?case by (simp add: Let_def split_beta)
qed

text \<open>
  Claim C6. Every key of a key set and every key of the Held-Key Set is stored lower-cased,
  and every lookup lower-cases its argument. Hence, when key identifiers are replaced by
  identifiers with the same lower-cased form (by \<open>caseVariant_iff_sameKey\<close> these are the
  identifiers that differ in letter-case only), in the keys of the bindings, in the names of
  their modifiers maps and in the events, and nothing else is changed, then registration
  throws or not as before, the key sets are the same, the Held-Key Set after any sequence
  of notifications is the same, and the same effects are performed in the same order: the
  same bindings fire and the same events are suppressed.
\<close>

theorem C6_case_insensitive:
  assumes "list_all2 sameCommand commands commands'"
    and "list_all2 sameNotification ns ns'"
  shows "useKeys commands = useKeys commands'
     \<and> keySets commands = keySets commands'
     \<and> (\<forall>keySet\<in>set (keySets commands). \<forall>k\<in>set keySet. toLowerCase k = k)
     \<and> (\<forall>k\<in>set (fst (run commands [] ns)). toLowerCase k = k)
     \<and> fst (run commands [] ns) = fst (run commands' [] ns')
     \<and> list_all2 sameEffect (snd (run commands [] ns)) (snd (run commands' [] ns'))"
proof -
  have "keySets commands = keySets commands'"
  proof (rule nth_equalityI)
    show "length (keySets commands) = length (keySets commands')"
      using assms(1) by (simp add: keySets_def list_all2_lengthD)
    show "keySets commands ! j = keySets commands' ! j" if "j < length (keySets commands)" for j
      using that keySets_sameCommand [OF assms(1), of j] by (simp add: keySets_def)
  qed
  moreover have "\<forall>keySet\<in>set (keySets commands). \<forall>k\<in>set keySet. toLowerCase k = k"
    by (auto simp: keySets_def dest: LowercaseSet_new_member_lower)
  moreover have "\<forall>k\<in>set (fst (run commands [] ns)). toLowerCase k = k"
    by (rule run_lower) simp
  ultimately show ?thesis
    using useKeys_sameCommand [OF assms(1)] run_sameCommand [OF assms, of "[]"] by blast
qed

text \<open>
  The save binding written \<open>s\<close> / \<open>Control\<close> and written \<open>S\<close> / \<open>CONTROL\<close>, driven by
  \<open>Control\<close>, \<open>s\<close> and by \<open>control\<close>, \<open>S\<close>; and the binding to \<open>e-acute\<close> in either case:
  the key-down in the other case is a repeat of a held key, the key-up in the other case
  releases it.
\<close>

theorem C6_case_insensitive_witness:
  "list_all2 sameCommand saveCommands saveCommandsUpper
   \<and> list_all2 sameNotification saveKeys saveKeysUpper
   \<and> run saveCommands [] saveKeys
       = ([''control''], [PreventDefault (keyEvent ''s''), Invoke 0 7 (keyEvent ''s'')])
   \<and> run saveCommandsUpper [] saveKeysUpper
       = ([''control''], [PreventDefault (keyEvent ''S''), Invoke 0 7 (keyEvent ''S'')])
   \<and> fst (run saveCommands [] saveKeys) = fst (run saveCommandsUpper [] saveKeysUpper)
   \<and> list_all2 sameEffect (snd (run saveCommands [] saveKeys))
        (snd (run saveCommandsUpper [] saveKeysUpper))
   \<and> caseVariant eAcute capitalEAcute
   \<and> list_all2 sameCommand accentCommands accentCommandsUpper
   \<and> list_all2 sameNotification accentKeys accentKeysUpper
   \<and> run accentCommands [] accentKeys
       = ([eAcute], [Invoke 0 7 (keyEvent eAcute), Invoke 0 7 (keyEvent eAcute)])
   \<and> run accentCommandsUpper [] accentKeysUpper
       = ([eAcute], [Invoke 0 7 (keyEvent capitalEAcute), Invoke 0 7 (keyEvent capitalEAcute)])
   \<and> fst (run accentCommands [] accentKeys) = fst (run accentCommandsUpper [] accentKeysUpper)
   \<and> list_all2 sameEffect (snd (run accentCommands [] accentKeys))
        (snd (run accentCommandsUpper [] accentKeysUpper))"
proof -
  have h1: "list_all2 sameCommand saveCommands saveCommandsUpper" by code_simp
  have h2: "list_all2 sameNotification saveKeys saveKeysUpper" by code_simp
  have r1: "run saveCommands [] saveKeys
       = ([''control''], [PreventDefault (keyEvent ''s''), Invoke 0 7 (keyEvent ''s'')])"
    by code_simp
  have r2: "run saveCommandsUpper [] saveKeysUpper
       = ([''control''], [PreventDefault (keyEvent ''S''), Invoke 0 7 (keyEvent ''S'')])"
    by code_simp
  note c = C6_case_insensitive [OF h1 h2]
  have v: "caseVariant eAcute capitalEAcute" by code_simp
  have g1: "list_all2 sameCommand accentCommands accentCommandsUpper" by code_simp
  have g2: "list_all2 sameNotification accentKeys accentKeysUpper" by code_simp
  have s1: "run accentCommands [] accentKeys
       = ([eAcute], [Invoke 0 7 (keyEvent eAcute), Invoke 0 7 (keyEvent eAcute)])"
    by code_simp
  have s2: "run accentCommandsUpper [] accentKeysUpper
       = ([eAcute], [Invoke 0 7 (keyEvent capitalEAcute), Invoke 0 7 (keyEvent capitalEAcute)])"
    by code_simp
  note d = C6_case_insensitive [OF g1 g2]
  show ?thesis
    by (intro conjI h1 h2 r1 r2 v g1 g2 s1 s2
        c [THEN conjunct2, THEN conjunct2, THEN conjunct2, THEN conjunct2, THEN conjunct1]
        c [THEN conjunct2, THEN conjunct2, THEN conjunct2, THEN conjunct2, THEN conjunct2]
        d [THEN conjunct2, THEN conjunct2, THEN conjunct2, THEN conjunct2, THEN conjunct1]
        d [THEN conjunct2, THEN conjunct2, THEN conjunct2, THEN conjunct2, THEN conjunct2])
qed

end
